theory Spec2Isabelle
  imports Complex_Main
begin

section \<open>The capture engine of \<^verbatim>\<open>src/stream_capture.py\<close>\<close>

text \<open>
  \<^verbatim>\<open>StreamCapture\<close> reads frames from a video stream in an endless loop, yields one
  frame per capture interval, reconnects on every failed read and, after five failed
  reads with no success so far, delegates to a second loop that picks a stream quality
  from the measured download speed.

  The two loops are asynchronous generators that talk to the outside world: the video
  reader, the clock, the speed test, the quality resolver and the consumer of the frames.
  The embedding makes that world an input. A \<^emph>\<open>tick\<close> holds the answers the world gives
  during one step of a run (the start-up of a generator, or one iteration of its loop),
  a run is a function of the list of ticks, and its result is the trace of the calls and
  yields the code performs, how the generator stands when the ticks end, and the engine
  object as it is left. A loop that never ends is thereby a function defined on every
  finite list of ticks.

  Numbers: \<^verbatim>\<open>capture_interval\<close> is a Python \<^verbatim>\<open>int\<close>. A \<^verbatim>\<open>datetime\<close> is a naive local clock
  reading in seconds, held as an exact \<^typ>\<open>real\<close> (the code has whole microseconds), and
  the difference of two readings is exact, as a \<^verbatim>\<open>timedelta\<close> is. The timestamp that is
  yielded is not that reading: \<^verbatim>\<open>current_time.timestamp()\<close> converts the reading from local
  time to POSIX seconds and returns a double, so it is a further answer of the world.
  The download speed is a \<^typ>\<open>real\<close> number of Mbps. \<^verbatim>\<open>gc.collect()\<close> and \<^verbatim>\<open>del\<close> only
  manage memory and are left out.
\<close>

subsection \<open>The engine object\<close>

text \<open>A \<^verbatim>\<open>cv2.VideoCapture\<close> object, identified by the URL it was constructed on.\<close>

datatype video_capture = VideoCapture string

record engine =
  stream_url :: string
  cap :: "video_capture option"
  capture_interval :: int
  successfully_captured :: bool

text \<open>\<^verbatim>\<open>StreamCapture.__init__\<close>.\<close>

definition StreamCapture :: "string \<Rightarrow> int \<Rightarrow> engine" where
  "StreamCapture url interval =
     \<lparr>stream_url = url, cap = None, capture_interval = interval,
      successfully_captured = False\<rparr>"

subsection \<open>The world, the trace and the result of a run\<close>

text \<open>Which of the two loops performs a read or a yield.\<close>

datatype path = Primary | Fallback

text \<open>
  The answers of the world during one step:
  \<^item> \<open>rd\<close>: what \<^verbatim>\<open>cap.read()\<close> returns, the pair \<^verbatim>\<open>(ret, frame)\<close>;
  \<^item> \<open>opened\<close>: what \<^verbatim>\<open>cap.isOpened()\<close> returns on a capture constructed in this step;
  \<^item> \<open>now\<close>: what \<^verbatim>\<open>datetime.datetime.now()\<close> returns, a naive local reading;
  \<^item> \<open>timestamp\<close>: what \<^verbatim>\<open>timestamp()\<close> returns on that reading, in POSIX seconds; it
    depends on the UTC offset in force at the reading and is rounded to a double;
  \<^item> \<open>speed\<close>: the download speed of \<^verbatim>\<open>check_internet_speed()\<close>, \<open>None\<close> when the speed
    test raises;
  \<^item> \<open>streams\<close>: the dictionary of \<^verbatim>\<open>streamlink.streams(url)\<close>, from a quality label to
    the URL of that stream, \<open>None\<close> when the call raises;
  \<^item> \<open>cancel\<close>: the consumer cancels during this step. The generator observes it where
    the iteration suspends: at its \<^verbatim>\<open>yield\<close>, or else at its \<^verbatim>\<open>asyncio.sleep(0.01)\<close>. An
    iteration that ends in \<^verbatim>\<open>continue\<close> reaches neither, and the waits of five seconds
    are taken to complete. Neither loop has a handler, so the exception that the
    cancellation raises at the suspension point ends the generator there.
  One \<open>opened\<close> answers every capture constructed in the step.
\<close>

record 'f tick =
  rd :: "bool \<times> 'f option"
  opened :: bool
  now :: real
  timestamp :: real
  speed :: "real option"
  streams :: "(string \<rightharpoonup> string) option"
  cancel :: bool

text \<open>
  What the code does, in order. \<open>Log_fail\<close>, \<open>Log_switch\<close>, \<open>Log_reinit\<close> and
  \<open>Log_no_quality\<close> are the \<^verbatim>\<open>print\<close> calls of the source; \<open>Log_fail\<close> carries the
  fail count that is printed. \<open>Emit p frame current_time stamp\<close> is the \<^verbatim>\<open>yield\<close> of the
  frame and the timestamp \<open>stamp\<close> by loop \<open>p\<close>; it also records the clock reading
  \<open>current_time\<close> at which the gate accepted the frame, which is not part of what is
  yielded.
\<close>

datatype 'f event =
    Open string
  | Sleep5
  | Retry_open string
  | Release video_capture
  | Read path
  | Log_fail path nat
  | Log_switch
  | Log_reinit
  | Probe
  | Resolve
  | Log_no_quality
  | Emit path 'f real real

text \<open>
  How the generator stands when the ticks end: still in its loop, returned, ended by the
  consumer's cancellation, or ended by an exception that nothing catches.
\<close>

datatype outcome = Running | Returned | Cancelled | Raised

type_synonym 'f run = "'f event list \<times> outcome \<times> engine"

definition trace :: "'f run \<Rightarrow> 'f event list" where
  "trace r = fst r"

definition outcome_of :: "'f run \<Rightarrow> outcome" where
  "outcome_of r = fst (snd r)"

definition final :: "'f run \<Rightarrow> engine" where
  "final r = snd (snd r)"

definition prepend :: "'f event list \<Rightarrow> 'f run \<Rightarrow> 'f run" where
  "prepend evs r = (evs @ fst r, snd r)"

subsection \<open>\<^verbatim>\<open>initialise_stream\<close> and \<^verbatim>\<open>release_resources\<close>\<close>

text \<open>
  \<^verbatim>\<open>initialise_stream\<close> constructs a new capture and stores it in \<^verbatim>\<open>self.cap\<close>, whatever
  was there; when the capture is not opened it sleeps 5 seconds and calls \<^verbatim>\<open>open\<close> on the
  same object once.
\<close>

definition initialise_stream ::
  "engine \<Rightarrow> string \<Rightarrow> bool \<Rightarrow> 'f event list \<times> engine" where
  "initialise_stream e url is_opened =
     (Open url # (if \<not> is_opened then [Sleep5, Retry_open url] else []),
      e\<lparr>cap := Some (VideoCapture url)\<rparr>)"

definition release_resources :: "engine \<Rightarrow> 'f event list \<times> engine" where
  "release_resources e =
     (case cap e of
        Some c \<Rightarrow> ([Release c], e\<lparr>cap := None\<rparr>)
      | None \<Rightarrow> ([], e))"

subsection \<open>\<^verbatim>\<open>select_quality_based_on_speed\<close>\<close>

definition preferred_qualities :: "real \<Rightarrow> string list" where
  "preferred_qualities download_speed =
     (if download_speed > 10 then
        [''best'', ''1080p'', ''720p'', ''480p'', ''360p'', ''240p'', ''worst'']
      else if 5 < download_speed \<and> download_speed \<le> 10 then
        [''720p'', ''480p'', ''360p'', ''240p'', ''worst'']
      else
        [''480p'', ''360p'', ''240p'', ''worst''])"

text \<open>
  The \<^verbatim>\<open>for quality in preferred_qualities\<close> loop: the URL of the first preferred quality
  that is a key of \<^verbatim>\<open>streams\<close>. Falling out of the loop raises, and the \<^verbatim>\<open>except\<close> clause
  turns that into \<^verbatim>\<open>None\<close>.
\<close>

fun first_available :: "string list \<Rightarrow> (string \<rightharpoonup> string) \<Rightarrow> string option" where
  "first_available [] available = None"
| "first_available (quality # qualities) available =
     (case available quality of
        Some url \<Rightarrow> Some url
      | None \<Rightarrow> first_available qualities available)"

datatype error = SpeedtestError

text \<open>
  The speed test runs before the \<^verbatim>\<open>try\<close>, so its exception leaves the function; an
  exception of the resolver is caught and gives \<^verbatim>\<open>None\<close>.
\<close>

definition select_quality_based_on_speed ::
  "real option \<Rightarrow> (string \<rightharpoonup> string) option \<Rightarrow> error + string option" where
  "select_quality_based_on_speed measured resolved =
     (case measured of
        None \<Rightarrow> Inl SpeedtestError
      | Some download_speed \<Rightarrow>
          Inr (case resolved of
                 None \<Rightarrow> None
               | Some available \<Rightarrow>
                   first_available (preferred_qualities download_speed) available))"

text \<open>Python's \<^verbatim>\<open>not stream_url\<close>: true of \<^verbatim>\<open>None\<close> and of the empty string.\<close>

definition no_url :: "string option \<Rightarrow> bool" where
  "no_url u = (u = None \<or> u = Some [])"

subsection \<open>The loops\<close>

text \<open>
  How one iteration of a loop ends: it goes round again with new loop variables
  (\<^verbatim>\<open>fail_count\<close>, \<^verbatim>\<open>last_process_time\<close>), it hands the rest of the run to
  \<^verbatim>\<open>capture_generic_frames\<close>, or the generator stops.
\<close>

datatype next_step =
    Continue engine nat real
  | Delegate engine
  | Stop outcome engine

text \<open>The read of both loops: \<^verbatim>\<open>self.cap.read() if self.cap is not None else (False, None)\<close>.\<close>

definition read_frame :: "engine \<Rightarrow> 'f tick \<Rightarrow> path \<Rightarrow> 'f event list \<times> bool \<times> 'f option" where
  "read_frame e i p =
     (if cap e \<noteq> None then ([Read p], rd i) else ([], False, None))"

text \<open>
  The part both loops share after a successful read: the interval gate, the \<^verbatim>\<open>yield\<close> and
  the short sleep. \<open>e\<close> already has \<^verbatim>\<open>successfully_captured\<close> set. The elapsed time
  is the exact difference of the two readings; in the code \<^verbatim>\<open>total_seconds()\<close> is the
  double nearest to it. The elapsed time being a whole number of microseconds, comparing
  that double with the interval gives the same answer as the exact comparison as long
  as the interval is below \<open>2^32\<close> seconds in absolute value; from \<open>2^35\<close> on, the double
  of an elapsed time one microsecond short of the interval is the interval itself.
\<close>

definition gate ::
  "engine \<Rightarrow> real \<Rightarrow> 'f tick \<Rightarrow> path \<Rightarrow> 'f \<Rightarrow> 'f event list \<times> next_step" where
  "gate e last_process_time i p frame =
     (let current_time = now i;
          elapsed_time = current_time - last_process_time
      in if elapsed_time \<ge> real_of_int (capture_interval e) then
           ([Emit p frame current_time (timestamp i)],
            if cancel i then Stop Cancelled e else Continue e 0 current_time)
         else
           ([], if cancel i then Stop Cancelled e else Continue e 0 last_process_time))"

text \<open>One iteration of the loop of \<^verbatim>\<open>capture_generic_frames\<close> (lines 214 to 263).\<close>

definition fallback_step ::
  "engine \<Rightarrow> nat \<Rightarrow> real \<Rightarrow> 'f tick \<Rightarrow> 'f event list \<times> next_step" where
  "fallback_step e fail_count last_process_time i =
     (case read_frame e i Fallback of (ev_read, ret, frame) \<Rightarrow>
        if \<not> ret \<or> frame = None then
          (let fail_count = fail_count + 1;
               evs = ev_read @ [Log_fail Fallback fail_count]
           in if fail_count \<ge> 5 \<and> \<not> successfully_captured e then
                (case release_resources e of (ev_rel, e1) \<Rightarrow>
                   (case select_quality_based_on_speed (speed i) (streams i) of
                      Inl err \<Rightarrow>
                        (evs @ [Log_reinit] @ ev_rel @ [Sleep5, Probe], Stop Raised e1)
                    | Inr url \<Rightarrow>
                        if no_url url then
                          (evs @ [Log_reinit] @ ev_rel @ [Sleep5, Probe, Resolve, Log_no_quality],
                           Continue e1 fail_count last_process_time)
                        else
                          (case initialise_stream e1 (the url) (opened i) of (ev_init, e2) \<Rightarrow>
                             (evs @ [Log_reinit] @ ev_rel @ [Sleep5, Probe, Resolve] @ ev_init,
                              Continue e2 0 last_process_time))))
              else (evs, Continue e fail_count last_process_time))
        else
          (case gate (e\<lparr>successfully_captured := True\<rparr>) last_process_time i Fallback
                  (the frame) of
             (ev, nxt) \<Rightarrow> (ev_read @ ev, nxt)))"

fun fallback_loop :: "engine \<Rightarrow> nat \<Rightarrow> real \<Rightarrow> 'f tick list \<Rightarrow> 'f run" where
  "fallback_loop e fail_count last_process_time [] = ([], Running, e)"
| "fallback_loop e fail_count last_process_time (i # ticks) =
     (case fallback_step e fail_count last_process_time i of
        (evs, Continue e' fail_count' last') \<Rightarrow>
          prepend evs (fallback_loop e' fail_count' last' ticks)
      | (evs, Delegate e') \<Rightarrow> (evs, Returned, e')
      | (evs, Stop out e') \<Rightarrow> (evs, out, e'))"

text \<open>
  No iteration of this loop delegates (\<open>fallback_step\<close> never gives \<open>Delegate\<close>); the
  equation for it only completes the case distinction.
\<close>

text \<open>
  \<^verbatim>\<open>capture_generic_frames\<close>: the first tick answers the start-up (lines 202 to 212), the
  others one iteration each.
\<close>

fun capture_generic_frames :: "engine \<Rightarrow> 'f tick list \<Rightarrow> 'f run" where
  "capture_generic_frames e [] = ([], Running, e)"
| "capture_generic_frames e (i # ticks) =
     (case select_quality_based_on_speed (speed i) (streams i) of
        Inl err \<Rightarrow> ([Probe], Raised, e)
      | Inr url \<Rightarrow>
          if no_url url then ([Probe, Resolve, Log_no_quality], Returned, e)
          else
            (case initialise_stream e (the url) (opened i) of (ev_init, e1) \<Rightarrow>
               prepend ([Probe, Resolve] @ ev_init) (fallback_loop e1 0 (now i) ticks)))"

text \<open>One iteration of the loop of \<^verbatim>\<open>execute_capture\<close> (lines 88 to 134).\<close>

definition primary_step ::
  "engine \<Rightarrow> nat \<Rightarrow> real \<Rightarrow> 'f tick \<Rightarrow> 'f event list \<times> next_step" where
  "primary_step e fail_count last_process_time i =
     (case (if cap e = None then initialise_stream e (stream_url e) (opened i) else ([], e)) of
        (ev_none, e0) \<Rightarrow>
        (case read_frame e0 i Primary of (ev_read, ret, frame) \<Rightarrow>
           if \<not> ret \<or> frame = None then
             (let fail_count = fail_count + 1 in
              case release_resources e0 of (ev_rel, e1) \<Rightarrow>
              case initialise_stream e1 (stream_url e1) (opened i) of (ev_init, e2) \<Rightarrow>
              let evs = ev_none @ ev_read @ [Log_fail Primary fail_count] @ ev_rel @ ev_init
              in if fail_count \<ge> 5 \<and> \<not> successfully_captured e2 then
                   (evs @ [Log_switch], Delegate e2)
                 else (evs, Continue e2 fail_count last_process_time))
           else
             (case gate (e0\<lparr>successfully_captured := True\<rparr>) last_process_time i Primary
                     (the frame) of
                (ev, nxt) \<Rightarrow> (ev_none @ ev_read @ ev, nxt))))"

fun primary_loop :: "engine \<Rightarrow> nat \<Rightarrow> real \<Rightarrow> 'f tick list \<Rightarrow> 'f run" where
  "primary_loop e fail_count last_process_time [] = ([], Running, e)"
| "primary_loop e fail_count last_process_time (i # ticks) =
     (case primary_step e fail_count last_process_time i of
        (evs, Continue e' fail_count' last') \<Rightarrow>
          prepend evs (primary_loop e' fail_count' last' ticks)
      | (evs, Delegate e') \<Rightarrow> prepend evs (capture_generic_frames e' ticks)
      | (evs, Stop out e') \<Rightarrow> (evs, out, e'))"

text \<open>
  \<^verbatim>\<open>execute_capture\<close>: the first tick answers the start-up (lines 82 to 86). The call of
  \<^verbatim>\<open>release_resources\<close> on line 136 follows a \<^verbatim>\<open>while True\<close> that has no \<^verbatim>\<open>break\<close>: the
  loop is left only by the \<^verbatim>\<open>return\<close> of line 111 or by an exception, so no run reaches
  that line. The subtraction of line 83 raises \<^verbatim>\<open>OverflowError\<close> when the interval takes the
  reading out of the years 1 to 9999; such a run of the code ends there and yields
  nothing, and the model has no such exit.
\<close>

fun execute_capture :: "engine \<Rightarrow> 'f tick list \<Rightarrow> 'f run" where
  "execute_capture e [] = ([], Running, e)"
| "execute_capture e (i # ticks) =
     (case initialise_stream e (stream_url e) (opened i) of (ev_init, e1) \<Rightarrow>
        prepend ev_init
          (primary_loop e1 0 (now i - real_of_int (capture_interval e1)) ticks))"

subsection \<open>Reading a trace\<close>

text \<open>
  The clock readings at which the frames of a trace were accepted by the gate, in order,
  and the timestamps that were yielded with them.
\<close>

fun emit_readings :: "'f event list \<Rightarrow> real list" where
  "emit_readings [] = []"
| "emit_readings (ev # evs) =
     (case ev of Emit p frame t stamp \<Rightarrow> [t] | _ \<Rightarrow> []) @ emit_readings evs"



text \<open>The event is a read, a failure report or a yield of the given loop.\<close>

fun by_path :: "path \<Rightarrow> 'f event \<Rightarrow> bool" where
  "by_path p (Read q) = (q = p)"
| "by_path p (Log_fail q n) = (q = p)"
| "by_path p (Emit q frame t stamp) = (q = p)"
| "by_path p ev = False"

fun is_emit :: "'f event \<Rightarrow> bool" where
  "is_emit (Emit p frame t stamp) = True"
| "is_emit ev = False"

fun is_open :: "'f event \<Rightarrow> bool" where
  "is_open (Open url) = True"
| "is_open ev = False"

fun is_release :: "'f event \<Rightarrow> bool" where
  "is_release (Release c) = True"
| "is_release ev = False"

text \<open>
  What the fallback loop does to recover: releasing the capture, waiting, measuring the
  speed, resolving the qualities, opening a stream.
\<close>

fun recovery_action :: "'f event \<Rightarrow> bool" where
  "recovery_action (Release c) = True"
| "recovery_action Sleep5 = True"
| "recovery_action Probe = True"
| "recovery_action Resolve = True"
| "recovery_action (Open url) = True"
| "recovery_action (Retry_open url) = True"
| "recovery_action Log_reinit = True"
| "recovery_action Log_no_quality = True"
| "recovery_action ev = False"

text \<open>A read that the loops treat as failed: \<^verbatim>\<open>not ret or frame is None\<close>.\<close>

definition read_failed :: "'f tick \<Rightarrow> bool" where
  "read_failed i = (\<not> fst (rd i) \<or> snd (rd i) = None)"

subsection \<open>Example inputs\<close>

text \<open>
  Ticks and engines for the concrete runs below. The stream resolves to the qualities
  480p and worst and the speed test measures 7 Mbps, except in \<open>no_quality_at\<close>, where
  the only quality is 1080p at 3 Mbps. \<open>at_time\<close> is a tick whose read fails,
  \<open>good_read\<close> one whose read succeeds. Their local time is UTC, so the timestamp is the
  reading.
\<close>

abbreviation at_time :: "real \<Rightarrow> nat tick" where
  "at_time t \<equiv>
     \<lparr>rd = (False, None), opened = True, now = t, timestamp = t, speed = Some 7,
      streams = Some [''480p'' \<mapsto> ''u480'', ''worst'' \<mapsto> ''uw''], cancel = False\<rparr>"

abbreviation good_read :: "real \<Rightarrow> nat tick" where
  "good_read t \<equiv>
     \<lparr>rd = (True, Some 1), opened = True, now = t, timestamp = t, speed = Some 7,
      streams = Some [''480p'' \<mapsto> ''u480'', ''worst'' \<mapsto> ''uw''], cancel = False\<rparr>"

abbreviation no_quality_at :: "real \<Rightarrow> nat tick" where
  "no_quality_at t \<equiv>
     \<lparr>rd = (False, None), opened = True, now = t, timestamp = t, speed = Some 3,
      streams = Some [''1080p'' \<mapsto> ''u1080''], cancel = False\<rparr>"

abbreviation opened_engine :: "engine" where
  "opened_engine \<equiv>
     \<lparr>stream_url = ''p'', cap = Some (VideoCapture ''p''), capture_interval = 15,
      successfully_captured = False\<rparr>"

abbreviation viable_engine :: "engine" where
  "viable_engine \<equiv>
     \<lparr>stream_url = ''p'', cap = Some (VideoCapture ''p''), capture_interval = 15,
      successfully_captured = True\<rparr>"

abbreviation fallback_engine :: "engine" where
  "fallback_engine \<equiv>
     \<lparr>stream_url = ''p'', cap = Some (VideoCapture ''u480''), capture_interval = 15,
      successfully_captured = True\<rparr>"

section \<open>Properties\<close>

subsection \<open>Auxiliary facts\<close>

lemmas step_defs = primary_step_def fallback_step_def read_frame_def gate_def
  initialise_stream_def release_resources_def Let_def

lemma trace_prepend [simp]: "trace (prepend evs r) = evs @ trace r"
  by (simp add: trace_def prepend_def)

lemma outcome_prepend [simp]: "outcome_of (prepend evs r) = outcome_of r"
  by (simp add: outcome_of_def prepend_def)

lemma final_prepend [simp]: "final (prepend evs r) = final r"
  by (simp add: final_def prepend_def)

lemma prepend_prepend: "prepend xs (prepend ys r) = prepend (xs @ ys) r"
  by (simp add: prepend_def)

lemma trace_triple [simp]: "trace (evs, out, e) = evs"
  by (simp add: trace_def)

lemma outcome_triple [simp]: "outcome_of (evs, out, e) = out"
  by (simp add: outcome_of_def)

lemma final_triple [simp]: "final (evs, out, e) = e"
  by (simp add: final_def)

lemma emit_readings_append [simp]: "emit_readings (xs @ ys) = emit_readings xs @ emit_readings ys"
  by (induction xs) auto


lemma first_available_find:
  "first_available qs av =
     (case find (\<lambda>q. av q \<noteq> None) qs of None \<Rightarrow> None | Some q \<Rightarrow> av q)"
  by (induction qs) (auto split: option.splits)

subsection \<open>Releasing the capture\<close>

text \<open>
  Claim C9. \<^verbatim>\<open>release_resources\<close> is idempotent: on an engine whose capture is already
  released (\<^verbatim>\<open>cap is None\<close>) it changes nothing and calls nothing; a second call in a row
  leaves the engine as the first call left it; and the two calls together call
  \<^verbatim>\<open>release\<close> once when a capture was open and never otherwise.
\<close>

theorem release_resources_idempotent:
  "(cap e = None \<longrightarrow> release_resources e = (([] :: 'f event list), e))
   \<and> snd (release_resources (snd (release_resources e :: 'f event list \<times> engine))
            :: 'f event list \<times> engine)
       = snd (release_resources e :: 'f event list \<times> engine)
   \<and> fst (release_resources e) @
       fst (release_resources (snd (release_resources e :: 'f event list \<times> engine)))
       = (case cap e of Some c \<Rightarrow> [Release c :: 'f event] | None \<Rightarrow> [])"
  by (simp add: release_resources_def split: option.splits)

theorem release_resources_idempotent_witness:
  "cap (StreamCapture ''p'' 15) = None
   \<and> release_resources (StreamCapture ''p'' 15)
       = (([] :: nat event list), StreamCapture ''p'' 15)
   \<and> fst (release_resources ((StreamCapture ''p'' 15)\<lparr>cap := Some (VideoCapture ''p'')\<rparr>)) @
       fst (release_resources (snd (release_resources
              ((StreamCapture ''p'' 15)\<lparr>cap := Some (VideoCapture ''p'')\<rparr>)
               :: nat event list \<times> engine)))
       = [Release (VideoCapture ''p'') :: nat event]"
  using release_resources_idempotent [of "StreamCapture ''p'' 15", where 'f = nat]
    release_resources_idempotent
      [of "(StreamCapture ''p'' 15)\<lparr>cap := Some (VideoCapture ''p'')\<rparr>", where 'f = nat]
  by (simp add: StreamCapture_def)

subsection \<open>Selecting the quality\<close>

text \<open>
  Claim C4. The quality selection is a function of the measured download speed and of the
  resolved qualities. Above 10 Mbps the candidates are best, 1080p, 720p, 480p, 360p,
  240p, worst; above 5 and up to 10 they are 720p, 480p, 360p, 240p, worst; up to 5 they
  are 480p, 360p, 240p, worst. The stream of the first candidate that is resolved is
  selected, and when no candidate is resolved nothing is selected.
\<close>

theorem select_quality_ladder:
  "(s > 10 \<longrightarrow> preferred_qualities s =
       [''best'', ''1080p'', ''720p'', ''480p'', ''360p'', ''240p'', ''worst''])
   \<and> (5 < s \<and> s \<le> 10 \<longrightarrow> preferred_qualities s =
       [''720p'', ''480p'', ''360p'', ''240p'', ''worst''])
   \<and> (s \<le> 5 \<longrightarrow> preferred_qualities s = [''480p'', ''360p'', ''240p'', ''worst''])
   \<and> select_quality_based_on_speed (Some s) (Some available) =
       Inr (case find (\<lambda>q. available q \<noteq> None) (preferred_qualities s) of
              None \<Rightarrow> None
            | Some q \<Rightarrow> available q)
   \<and> ((\<forall>q \<in> set (preferred_qualities s). available q = None) \<longrightarrow>
        select_quality_based_on_speed (Some s) (Some available) = Inr None)"
proof -
  have "(\<forall>q \<in> set qs. available q = None) \<Longrightarrow> find (\<lambda>q. available q \<noteq> None) qs = None"
    for qs
    by (induction qs) auto
  then show ?thesis
    by (simp add: select_quality_based_on_speed_def first_available_find
        preferred_qualities_def)
qed

theorem select_quality_ladder_witness:
  "(5 < (7::real) \<and> (7::real) \<le> 10)
   \<and> preferred_qualities 7 = [''720p'', ''480p'', ''360p'', ''240p'', ''worst'']
   \<and> select_quality_based_on_speed (Some 7)
        (Some [''480p'' \<mapsto> ''u480'', ''360p'' \<mapsto> ''u360'', ''worst'' \<mapsto> ''uw''])
       = Inr (Some ''u480'')
   \<and> (12::real) > 10
   \<and> select_quality_based_on_speed (Some 12)
        (Some [''720p'' \<mapsto> ''u720'', ''worst'' \<mapsto> ''uw'']) = Inr (Some ''u720'')
   \<and> (3::real) \<le> 5
   \<and> list_all (\<lambda>q. [''1080p'' \<mapsto> ''u1080''] q = None) (preferred_qualities 3)
   \<and> select_quality_based_on_speed (Some 3) (Some [''1080p'' \<mapsto> ''u1080'']) = Inr None"
  using select_quality_ladder
      [of 7 "[''480p'' \<mapsto> ''u480'', ''360p'' \<mapsto> ''u360'', ''worst'' \<mapsto> ''uw'']"]
    select_quality_ladder [of 12 "[''720p'' \<mapsto> ''u720'', ''worst'' \<mapsto> ''uw'']"]
    select_quality_ladder [of 3 "[''1080p'' \<mapsto> ''u1080'']"]
  by (simp add: preferred_qualities_def)

subsection \<open>One iteration\<close>

lemma release_resources_eq:
  "release_resources e =
     ((case cap e of Some c \<Rightarrow> [Release c] | None \<Rightarrow> []), e\<lparr>cap := None\<rparr>)"
  by (simp add: release_resources_def split: option.splits)

lemma gate_events:
  "fst (gate e lpt i p fr) =
     (if now i - lpt \<ge> real_of_int (capture_interval e)
      then [Emit p fr (now i) (timestamp i)] else [])"
  by (simp add: gate_def Let_def)

lemma gate_next:
  "snd (gate e lpt i p fr) =
     (if cancel i then Stop Cancelled e
      else Continue e 0 (if now i - lpt \<ge> real_of_int (capture_interval e) then now i else lpt))"
  by (simp add: gate_def Let_def)

lemma fallback_step_success:
  assumes "cap e \<noteq> None" and "\<not> read_failed i"
  shows "fallback_step e fc lpt i =
           (Read Fallback #
              fst (gate (e\<lparr>successfully_captured := True\<rparr>) lpt i Fallback (the (snd (rd i)))
                   :: 'f event list \<times> next_step),
            snd (gate (e\<lparr>successfully_captured := True\<rparr>) lpt i Fallback (the (snd (rd i)))
                   :: 'f event list \<times> next_step))"
  using assms
  by (cases "rd i") (auto simp: fallback_step_def read_frame_def read_failed_def case_prod_beta)

lemma fallback_step_failure:
  assumes "cap e = None \<or> read_failed i"
  shows "fallback_step e fc lpt i =
     (let evs = (if cap e \<noteq> None then [Read Fallback] else []) @ [Log_fail Fallback (fc + 1)];
          ev_rel = (case cap e of Some c \<Rightarrow> [Release c] | None \<Rightarrow> [])
      in if 5 \<le> fc + 1 \<and> \<not> successfully_captured e then
           (case select_quality_based_on_speed (speed i) (streams i) of
              Inl err \<Rightarrow> (evs @ [Log_reinit] @ ev_rel @ [Sleep5, Probe], Stop Raised (e\<lparr>cap := None\<rparr>))
            | Inr url \<Rightarrow>
                if no_url url then
                  (evs @ [Log_reinit] @ ev_rel @ [Sleep5, Probe, Resolve, Log_no_quality],
                   Continue (e\<lparr>cap := None\<rparr>) (fc + 1) lpt)
                else
                  (evs @ [Log_reinit] @ ev_rel @ [Sleep5, Probe, Resolve] @
                     Open (the url) # (if \<not> opened i then [Sleep5, Retry_open (the url)] else []),
                   Continue (e\<lparr>cap := Some (VideoCapture (the url))\<rparr>) 0 lpt))
         else (evs, Continue e (fc + 1) lpt))"
  using assms
  by (cases "rd i")
    (auto simp: fallback_step_def read_frame_def read_failed_def release_resources_eq
      initialise_stream_def Let_def split: sum.splits)

lemma primary_step_success:
  assumes "\<not> read_failed i"
  shows "primary_step e fc lpt i =
           ((if cap e = None
             then Open (stream_url e) #
                    (if \<not> opened i then [Sleep5, Retry_open (stream_url e)] else [])
             else []) @
            Read Primary #
              fst (gate ((if cap e = None then e\<lparr>cap := Some (VideoCapture (stream_url e))\<rparr> else e)
                           \<lparr>successfully_captured := True\<rparr>) lpt i Primary (the (snd (rd i)))
                   :: 'f event list \<times> next_step),
            snd (gate ((if cap e = None then e\<lparr>cap := Some (VideoCapture (stream_url e))\<rparr> else e)
                           \<lparr>successfully_captured := True\<rparr>) lpt i Primary (the (snd (rd i)))
                   :: 'f event list \<times> next_step))"
  using assms
  by (cases "rd i")
    (auto simp: primary_step_def read_frame_def read_failed_def initialise_stream_def
      case_prod_beta)

lemma primary_step_failure:
  assumes "read_failed i"
  shows "primary_step e fc lpt i =
     (let url = stream_url e;
          ev_init = Open url # (if \<not> opened i then [Sleep5, Retry_open url] else []);
          evs = (if cap e = None then ev_init else []) @
                [Read Primary, Log_fail Primary (fc + 1),
                 Release (case cap e of Some c \<Rightarrow> c | None \<Rightarrow> VideoCapture url)] @ ev_init;
          e2 = e\<lparr>cap := Some (VideoCapture url)\<rparr>
      in if 5 \<le> fc + 1 \<and> \<not> successfully_captured e then (evs @ [Log_switch], Delegate e2)
         else (evs, Continue e2 (fc + 1) lpt))"
  using assms
  by (cases "rd i")
    (auto simp: primary_step_def read_frame_def read_failed_def release_resources_eq
      initialise_stream_def Let_def)

lemmas gate_simps = gate_events gate_next

lemma fallback_step_events:
  assumes "fallback_step e fc lpt i = (evs, nxt)"
  shows "\<forall>ev \<in> set evs. \<not> by_path Primary ev \<and> ev \<noteq> Log_switch"
proof (cases "cap e = None \<or> read_failed i")
  case True
  from fallback_step_failure [OF True, of fc lpt] assms show ?thesis
    by (auto simp: Let_def split: sum.splits if_splits option.splits)
next
  case False
  then have "cap e \<noteq> None" "\<not> read_failed i" by auto
  from fallback_step_success [OF this, of fc lpt] assms show ?thesis
    by (auto simp: gate_simps split: if_splits)
qed

lemma fallback_step_not_delegate: "fallback_step e fc lpt i \<noteq> (evs, Delegate e')"
proof (cases "cap e = None \<or> read_failed i")
  case True
  from fallback_step_failure [OF True, of fc lpt] show ?thesis
    by (auto simp: Let_def split: sum.splits if_splits)
next
  case False
  then have "cap e \<noteq> None" "\<not> read_failed i" by auto
  from fallback_step_success [OF this, of fc lpt] show ?thesis
    by (auto simp: gate_simps split: if_splits)
qed


lemma fallback_step_after_success:
  assumes "successfully_captured e" and "fallback_step e fc lpt i = (evs, nxt)"
  shows "filter recovery_action evs = [] \<and>
         (case nxt of Continue e' fc' l' \<Rightarrow> successfully_captured e' \<and> cap e' = cap e
            | Delegate e' \<Rightarrow> False
            | Stop out e' \<Rightarrow> out = Cancelled \<and> cap e' = cap e)"
proof (cases "cap e = None \<or> read_failed i")
  case True
  from fallback_step_failure [OF True, of fc lpt] assms show ?thesis
    by (auto simp: Let_def)
next
  case False
  then have "cap e \<noteq> None" "\<not> read_failed i" by auto
  from fallback_step_success [OF this, of fc lpt] assms show ?thesis
    by (auto simp: gate_simps split: if_splits)
qed


lemma primary_step_after_success:
  assumes "successfully_captured e" and "primary_step e fc lpt i = (evs, nxt)"
  shows "(\<forall>ev \<in> set evs. \<not> by_path Fallback ev \<and> ev \<noteq> Log_switch \<and> ev \<noteq> Probe \<and> ev \<noteq> Resolve) \<and>
         (case nxt of
            Continue e' fc' l' \<Rightarrow> successfully_captured e' \<and> stream_url e' = stream_url e
          | Delegate e' \<Rightarrow> False
          | Stop out e' \<Rightarrow> out = Cancelled \<and> successfully_captured e')"
proof (cases "read_failed i")
  case True
  from primary_step_failure [OF True, of e fc lpt] assms show ?thesis
    by (auto simp: Let_def split: if_splits option.splits)
next
  case False
  from primary_step_success [OF False, of e fc lpt] assms show ?thesis
    by (auto simp: gate_simps split: if_splits)
qed

subsection \<open>The loops\<close>

lemma fallback_loop_path:
  "\<forall>ev \<in> set (trace (fallback_loop e fc lpt ticks)). \<not> by_path Primary ev \<and> ev \<noteq> Log_switch"
proof (induction ticks arbitrary: e fc lpt)
  case Nil
  show ?case by simp
next
  case (Cons i ticks)
  obtain evs nxt where st: "fallback_step e fc lpt i = (evs, nxt)"
    by (cases "fallback_step e fc lpt i")
  note ev = fallback_step_events [OF st]
  show ?case
  proof (cases nxt)
    case (Continue e' fc' l')
    with st ev Cons.IH [of e' fc' l'] show ?thesis by auto
  next
    case (Delegate e')
    with st ev show ?thesis by simp
  next
    case (Stop out e')
    with st ev show ?thesis by simp
  qed
qed

lemma capture_generic_frames_path:
  "\<forall>ev \<in> set (trace (capture_generic_frames e ticks)). \<not> by_path Primary ev \<and> ev \<noteq> Log_switch"
proof (cases ticks)
  case Nil
  then show ?thesis by simp
next
  case (Cons i rest)
  then show ?thesis
    using fallback_loop_path [of "e\<lparr>cap := Some (VideoCapture (the u))\<rparr>" 0 "now i" rest for u]
    by (auto simp: initialise_stream_def split: sum.splits)
qed





lemma primary_loop_after_success:
  assumes "successfully_captured e"
  shows "(\<forall>ev \<in> set (trace (primary_loop e fc lpt ticks)).
            \<not> by_path Fallback ev \<and> ev \<noteq> Log_switch \<and> ev \<noteq> Probe \<and> ev \<noteq> Resolve)
         \<and> outcome_of (primary_loop e fc lpt ticks) \<in> {Running, Cancelled}
         \<and> successfully_captured (final (primary_loop e fc lpt ticks))"
  using assms
proof (induction ticks arbitrary: e fc lpt)
  case Nil
  then show ?case by simp
next
  case (Cons i ticks)
  obtain evs nxt where st: "primary_step e fc lpt i = (evs, nxt)"
    by (cases "primary_step e fc lpt i")
  note a = primary_step_after_success [OF Cons.prems st]
  show ?case
  proof (cases nxt)
    case (Continue e' fc' l')
    with st a Cons.IH [of e' fc' l'] show ?thesis by auto
  next
    case (Delegate e')
    with a show ?thesis by simp
  next
    case (Stop out e')
    with st a show ?thesis by simp
  qed
qed

lemma primary_loop_reconnects:
  assumes "successfully_captured e" and "list_all read_failed ticks"
  shows "outcome_of (primary_loop e fc lpt ticks) = Running
         \<and> length (filter is_release (trace (primary_loop e fc lpt ticks))) = length ticks
         \<and> length ticks \<le> length (filter is_open (trace (primary_loop e fc lpt ticks)))
         \<and> (\<forall>ev \<in> set (trace (primary_loop e fc lpt ticks)).
               is_open ev \<longrightarrow> ev = Open (stream_url e))
         \<and> filter is_emit (trace (primary_loop e fc lpt ticks)) = []"
  using assms
proof (induction ticks arbitrary: e fc lpt)
  case Nil
  then show ?case by simp
next
  case (Cons i ticks)
  then have f: "read_failed i" and rest: "list_all read_failed ticks" by auto
  let ?e' = "e\<lparr>cap := Some (VideoCapture (stream_url e))\<rparr>"
  have s': "successfully_captured ?e'" using Cons.prems by simp
  note ih = Cons.IH [OF s' rest, of "fc + 1" lpt]
  show ?case
    using primary_step_failure [OF f, of e fc lpt] Cons.prems(1) ih
    by (auto simp: Let_def split: option.splits)
qed

lemma primary_step_failure_events:
  assumes "read_failed i"
  shows "\<exists>evs. primary_step e fc lpt i =
           (evs @ (if 5 \<le> fc + 1 \<and> \<not> successfully_captured e then [Log_switch] else []),
            if 5 \<le> fc + 1 \<and> \<not> successfully_captured e
            then Delegate (e\<lparr>cap := Some (VideoCapture (stream_url e))\<rparr>)
            else Continue (e\<lparr>cap := Some (VideoCapture (stream_url e))\<rparr>) (fc + 1) lpt)
         \<and> length (filter (\<lambda>ev. ev = Read Primary) evs) = 1
         \<and> filter is_emit evs = []
         \<and> Log_switch \<notin> set evs"
  using primary_step_failure [OF assms, of e fc lpt]
  by (cases "cap e"; cases "opened i") (simp_all add: Let_def)

lemma primary_loop_fail_streak:
  assumes "\<not> successfully_captured e" and "list_all read_failed fs"
    and "fs \<noteq> []" and "fc + length fs = 5"
  shows "\<exists>evs. primary_loop e fc lpt (fs @ rest) =
            prepend (evs @ [Log_switch])
              (capture_generic_frames (e\<lparr>cap := Some (VideoCapture (stream_url e))\<rparr>) rest)
          \<and> length (filter (\<lambda>ev. ev = Read Primary) evs) = length fs
          \<and> filter is_emit evs = []
          \<and> Log_switch \<notin> set evs"
  using assms
proof (induction fs arbitrary: e fc)
  case Nil
  then show ?case by simp
next
  case (Cons i fs)
  then have f: "read_failed i" and fs: "list_all read_failed fs" by auto
  let ?e' = "e\<lparr>cap := Some (VideoCapture (stream_url e))\<rparr>"
  from primary_step_failure_events [OF f, of e fc lpt] obtain evs0 where
    st: "primary_step e fc lpt i =
           (evs0 @ (if 5 \<le> fc + 1 \<and> \<not> successfully_captured e then [Log_switch] else []),
            if 5 \<le> fc + 1 \<and> \<not> successfully_captured e
            then Delegate ?e' else Continue ?e' (fc + 1) lpt)"
      "length (filter (\<lambda>ev. ev = Read Primary) evs0) = 1"
      "filter is_emit evs0 = []" "Log_switch \<notin> set evs0"
    by blast
  show ?case
  proof (cases "fs = []")
    case True
    with Cons.prems have "5 \<le> fc + 1" by simp
    with st Cons.prems(1) True show ?thesis
      by (intro exI [of _ evs0]) simp
  next
    case False
    with Cons.prems have lt: "\<not> 5 \<le> fc + 1" by (cases fs) auto
    have s': "\<not> successfully_captured ?e'" using Cons.prems by simp
    have n: "fc + 1 + length fs = 5" using Cons.prems by simp
    from Cons.IH [OF s' fs False n] obtain evs where
      ih: "primary_loop ?e' (fc + 1) lpt (fs @ rest) =
             prepend (evs @ [Log_switch]) (capture_generic_frames ?e' rest)"
        "length (filter (\<lambda>ev. ev = Read Primary) evs) = length fs"
        "filter is_emit evs = []" "Log_switch \<notin> set evs"
      by auto
    show ?thesis
      using st ih lt
      by (intro exI [of _ "evs0 @ evs"]) (simp add: prepend_prepend)
  qed
qed

lemma primary_step_first_success:
  assumes "\<not> read_failed i" and "primary_step e fc lpt i = (evs, nxt)"
  shows "(\<forall>ev \<in> set evs. \<not> by_path Fallback ev \<and> ev \<noteq> Log_switch \<and> ev \<noteq> Probe \<and> ev \<noteq> Resolve) \<and>
         (case nxt of
            Continue e' fc' l' \<Rightarrow> successfully_captured e'
          | Delegate e' \<Rightarrow> False
          | Stop out e' \<Rightarrow> out = Cancelled)"
  using primary_step_success [OF assms(1), of e fc lpt] assms(2)
  by (auto simp: gate_simps split: if_splits)

lemma primary_loop_after_first_success:
  assumes "\<not> read_failed i"
  shows "(\<forall>ev \<in> set (trace (primary_loop e fc lpt (i # ticks))).
            \<not> by_path Fallback ev \<and> ev \<noteq> Log_switch \<and> ev \<noteq> Probe \<and> ev \<noteq> Resolve)
         \<and> outcome_of (primary_loop e fc lpt (i # ticks)) \<in> {Running, Cancelled}"
proof -
  obtain evs nxt where st: "primary_step e fc lpt i = (evs, nxt)"
    by (cases "primary_step e fc lpt i")
  note a = primary_step_first_success [OF assms st]
  show ?thesis
  proof (cases nxt)
    case (Continue e' fc' l')
    with a have "successfully_captured e'" by simp
    from primary_loop_after_success [OF this, of fc' l' ticks] st a Continue
    show ?thesis by auto
  next
    case (Delegate e')
    with a show ?thesis by simp
  next
    case (Stop out e')
    with st a show ?thesis by simp
  qed
qed

lemma fallback_loop_after_success:
  assumes "successfully_captured e"
  shows "filter recovery_action (trace (fallback_loop e fc lpt ticks)) = []
         \<and> cap (final (fallback_loop e fc lpt ticks)) = cap e"
  using assms
proof (induction ticks arbitrary: e fc lpt)
  case Nil
  then show ?case by simp
next
  case (Cons i ticks)
  obtain evs nxt where st: "fallback_step e fc lpt i = (evs, nxt)"
    by (cases "fallback_step e fc lpt i")
  note a = fallback_step_after_success [OF Cons.prems st]
  show ?case
  proof (cases nxt)
    case (Continue e' fc' l')
    with st a Cons.IH [of e' fc' l'] show ?thesis by auto
  next
    case (Delegate e')
    with a show ?thesis by simp
  next
    case (Stop out e')
    with st a show ?thesis by simp
  qed
qed

lemma fallback_loop_persistent_failure:
  assumes "successfully_captured e" and "list_all (\<lambda>i. cap e = None \<or> read_failed i) ticks"
  shows "fallback_loop e fc lpt ticks =
           (concat (map (\<lambda>n. (if cap e \<noteq> None then [Read Fallback] else []) @
                               [Log_fail Fallback n])
                        [fc + 1 ..< fc + 1 + length ticks]),
            Running, e)"
  using assms
proof (induction ticks arbitrary: fc)
  case Nil
  then show ?case by simp
next
  case (Cons i ticks)
  then have f: "cap e = None \<or> read_failed i"
    and rest: "list_all (\<lambda>i. cap e = None \<or> read_failed i) ticks" by auto
  have up: "[fc + 1 ..< fc + 1 + length (i # ticks)]
              = (fc + 1) # [fc + 1 + 1 ..< fc + 1 + 1 + length ticks]"
    using upt_conv_Cons [of "fc + 1" "fc + 1 + length (i # ticks)"] by simp
  show ?case
    using fallback_step_failure [OF f, of fc lpt] Cons.prems(1)
      Cons.IH [OF Cons.prems(1) rest, of "fc + 1"]
    unfolding up
    by (simp add: Let_def prepend_def)
qed

lemma fallback_step_first_success:
  assumes "cap e \<noteq> None" and "\<not> read_failed i" and "fallback_step e fc lpt i = (evs, nxt)"
  shows "filter recovery_action evs = [] \<and>
         (case nxt of
            Continue e' fc' l' \<Rightarrow> successfully_captured e' \<and> cap e' = cap e
          | Delegate e' \<Rightarrow> False
          | Stop out e' \<Rightarrow> out = Cancelled \<and> cap e' = cap e)"
  using fallback_step_success [OF assms(1,2), of fc lpt] assms(3)
  by (auto simp: gate_simps split: if_splits)

lemma fallback_loop_after_first_success:
  assumes "cap e \<noteq> None" and "\<not> read_failed i"
  shows "filter recovery_action (trace (fallback_loop e fc lpt (i # ticks))) = []
         \<and> cap (final (fallback_loop e fc lpt (i # ticks))) = cap e"
proof -
  obtain evs nxt where st: "fallback_step e fc lpt i = (evs, nxt)"
    by (cases "fallback_step e fc lpt i")
  note a = fallback_step_first_success [OF assms st]
  show ?thesis
  proof (cases nxt)
    case (Continue e' fc' l')
    with a have "successfully_captured e'" by simp
    from fallback_loop_after_success [OF this, of fc' l' ticks] st a Continue
    show ?thesis by auto
  next
    case (Delegate e')
    with a show ?thesis by simp
  next
    case (Stop out e')
    with st a show ?thesis by simp
  qed
qed

lemmas run_defs = primary_step_def fallback_step_def read_frame_def gate_def
  initialise_stream_def release_resources_def Let_def select_quality_based_on_speed_def
  preferred_qualities_def no_url_def prepend_def read_failed_def StreamCapture_def
  trace_def outcome_of_def final_def

subsection \<open>The interval between frames\<close>




subsection \<open>The handoff to the fallback\<close>

text \<open>
  Claim C1. When the first five reads of the primary loop fail and no read has succeeded
  before (\<^verbatim>\<open>successfully_captured\<close> is false), the run is what the primary loop did up
  to the switch, followed by the run of \<^verbatim>\<open>capture_generic_frames\<close> on the remaining
  ticks: the primary loop has read exactly five times and yielded nothing, and what
  follows the switch contains no read, failure report or yield of the primary loop, so
  every frame comes from the fallback path.
\<close>

theorem handoff_after_five_failures:
  assumes "\<not> successfully_captured e" and "length fs = 5" and "list_all read_failed fs"
  shows "let r = primary_loop e 0 lpt (fs @ rest);
             pre = takeWhile (\<lambda>ev. ev \<noteq> Log_switch) (trace r);
             fb = capture_generic_frames (e\<lparr>cap := Some (VideoCapture (stream_url e))\<rparr>) rest
         in r = prepend (pre @ [Log_switch]) fb
            \<and> length (filter (\<lambda>ev. ev = Read Primary) pre) = 5
            \<and> filter is_emit pre = []
            \<and> list_all (\<lambda>ev. \<not> by_path Primary ev) (trace fb)"
proof -
  let ?fb = "capture_generic_frames (e\<lparr>cap := Some (VideoCapture (stream_url e))\<rparr>) rest"
  from assms have "fs \<noteq> []" "0 + length fs = 5" by auto
  from primary_loop_fail_streak [OF assms(1) assms(3) this, of lpt rest] obtain evs where
    r: "primary_loop e 0 lpt (fs @ rest) = prepend (evs @ [Log_switch]) ?fb"
    and evs: "length (filter (\<lambda>ev. ev = Read Primary) evs) = length fs"
      "filter is_emit evs = []" "Log_switch \<notin> set evs"
    by blast
  have tw: "x \<notin> set xs \<Longrightarrow> takeWhile (\<lambda>y. y \<noteq> x) (xs @ x # ys) = xs"
    for x :: "'a event" and xs ys
    by (induction xs) auto
  from evs(3) have "takeWhile (\<lambda>ev. ev \<noteq> Log_switch) (evs @ Log_switch # trace ?fb) = evs"
    by (rule tw)
  with r have pre: "takeWhile (\<lambda>ev. ev \<noteq> Log_switch) (trace (primary_loop e 0 lpt (fs @ rest))) = evs"
    by simp
  have "list_all (\<lambda>ev. \<not> by_path Primary ev) (trace ?fb)"
    using capture_generic_frames_path [of "e\<lparr>cap := Some (VideoCapture (stream_url e))\<rparr>" rest]
    by (simp add: list_all_iff)
  with r pre evs assms(2) show ?thesis
    by (simp add: Let_def)
qed

theorem handoff_after_five_failures_witness:
  "\<not> successfully_captured opened_engine
   \<and> length [at_time 1, at_time 2, at_time 3, at_time 4, at_time 5] = 5
   \<and> list_all read_failed [at_time 1, at_time 2, at_time 3, at_time 4, at_time 5]
   \<and> primary_loop opened_engine 0 0
        ([at_time 1, at_time 2, at_time 3, at_time 4, at_time 5] @ [at_time 6, good_read 30])
      = prepend
          ([Read Primary, Log_fail Primary 1, Release (VideoCapture ''p''), Open ''p'',
            Read Primary, Log_fail Primary 2, Release (VideoCapture ''p''), Open ''p'',
            Read Primary, Log_fail Primary 3, Release (VideoCapture ''p''), Open ''p'',
            Read Primary, Log_fail Primary 4, Release (VideoCapture ''p''), Open ''p'',
            Read Primary, Log_fail Primary 5, Release (VideoCapture ''p''), Open ''p'']
           @ [Log_switch])
          (capture_generic_frames opened_engine [at_time 6, good_read 30])
   \<and> trace (capture_generic_frames opened_engine [at_time 6, good_read 30])
      = [Probe, Resolve, Open ''u480'', Read Fallback, Emit Fallback 1 30 30]"
proof -
  have h1: "\<not> successfully_captured opened_engine" by simp
  have h2: "length [at_time 1, at_time 2, at_time 3, at_time 4, at_time 5] = 5" by simp
  have h3: "list_all read_failed [at_time 1, at_time 2, at_time 3, at_time 4, at_time 5]"
    by (simp add: read_failed_def)
  have ev: "trace (primary_loop opened_engine 0 0
        ([at_time 1, at_time 2, at_time 3, at_time 4, at_time 5] @ [at_time 6, good_read 30]))
      = [Read Primary, Log_fail Primary 1, Release (VideoCapture ''p''), Open ''p'',
            Read Primary, Log_fail Primary 2, Release (VideoCapture ''p''), Open ''p'',
            Read Primary, Log_fail Primary 3, Release (VideoCapture ''p''), Open ''p'',
            Read Primary, Log_fail Primary 4, Release (VideoCapture ''p''), Open ''p'',
            Read Primary, Log_fail Primary 5, Release (VideoCapture ''p''), Open ''p'',
            Log_switch, Probe, Resolve, Open ''u480'', Read Fallback, Emit Fallback 1 30 30]"
    by (simp add: run_defs)
  have fb: "trace (capture_generic_frames opened_engine [at_time 6, good_read 30])
      = [Probe, Resolve, Open ''u480'', Read Fallback, Emit Fallback 1 30 30]"
    by (simp add: run_defs)
  from handoff_after_five_failures [OF h1 h2 h3, of 0 "[at_time 6, good_read 30]"] ev
  have "primary_loop opened_engine 0 0
        ([at_time 1, at_time 2, at_time 3, at_time 4, at_time 5] @ [at_time 6, good_read 30])
      = prepend
          ([Read Primary, Log_fail Primary 1, Release (VideoCapture ''p''), Open ''p'',
            Read Primary, Log_fail Primary 2, Release (VideoCapture ''p''), Open ''p'',
            Read Primary, Log_fail Primary 3, Release (VideoCapture ''p''), Open ''p'',
            Read Primary, Log_fail Primary 4, Release (VideoCapture ''p''), Open ''p'',
            Read Primary, Log_fail Primary 5, Release (VideoCapture ''p''), Open ''p'']
           @ [Log_switch])
          (capture_generic_frames opened_engine [at_time 6, good_read 30])"
    by (simp add: Let_def)
  with h1 h2 h3 fb show ?thesis by blast
qed

text \<open>
  Claim C2. Once a read of the primary loop has succeeded (the flag is set, or the first
  tick of the run is a successful read), no later failure hands the run to the fallback:
  the trace has no switch, no speed test, no resolution and nothing by the fallback loop,
  and the generator is still running unless the consumer cancelled. Under failures only,
  every iteration releases the capture and opens the primary stream again, whatever
  their number.
\<close>

theorem no_handoff_after_success:
  "((successfully_captured e \<or> (\<exists>i rest. ticks = i # rest \<and> \<not> read_failed i)) \<longrightarrow>
       (\<forall>ev \<in> set (trace (primary_loop e fc lpt ticks)).
          \<not> by_path Fallback ev \<and> ev \<noteq> Log_switch \<and> ev \<noteq> Probe \<and> ev \<noteq> Resolve)
       \<and> outcome_of (primary_loop e fc lpt ticks) \<in> {Running, Cancelled})
   \<and> (successfully_captured e \<and> list_all read_failed ticks \<longrightarrow>
       outcome_of (primary_loop e fc lpt ticks) = Running
       \<and> length (filter is_release (trace (primary_loop e fc lpt ticks))) = length ticks
       \<and> length ticks \<le> length (filter is_open (trace (primary_loop e fc lpt ticks)))
       \<and> (\<forall>ev \<in> set (trace (primary_loop e fc lpt ticks)).
             is_open ev \<longrightarrow> ev = Open (stream_url e))
       \<and> filter is_emit (trace (primary_loop e fc lpt ticks)) = [])"
proof (rule conjI; rule impI)
  assume "successfully_captured e \<or> (\<exists>i rest. ticks = i # rest \<and> \<not> read_failed i)"
  then show "(\<forall>ev \<in> set (trace (primary_loop e fc lpt ticks)).
          \<not> by_path Fallback ev \<and> ev \<noteq> Log_switch \<and> ev \<noteq> Probe \<and> ev \<noteq> Resolve)
       \<and> outcome_of (primary_loop e fc lpt ticks) \<in> {Running, Cancelled}"
  proof
    assume "successfully_captured e"
    from primary_loop_after_success [OF this, of fc lpt ticks] show ?thesis by simp
  next
    assume "\<exists>i rest. ticks = i # rest \<and> \<not> read_failed i"
    then obtain i rest where t: "ticks = i # rest" and ok: "\<not> read_failed i" by blast
    from primary_loop_after_first_success [OF ok, of e fc lpt rest] t show ?thesis by simp
  qed
next
  assume "successfully_captured e \<and> list_all read_failed ticks"
  then have a: "successfully_captured e" and b: "list_all read_failed ticks" by simp_all
  from primary_loop_reconnects [OF a b, of fc lpt]
  show "outcome_of (primary_loop e fc lpt ticks) = Running
       \<and> length (filter is_release (trace (primary_loop e fc lpt ticks))) = length ticks
       \<and> length ticks \<le> length (filter is_open (trace (primary_loop e fc lpt ticks)))
       \<and> (\<forall>ev \<in> set (trace (primary_loop e fc lpt ticks)).
             is_open ev \<longrightarrow> ev = Open (stream_url e))
       \<and> filter is_emit (trace (primary_loop e fc lpt ticks)) = []" .
qed

theorem no_handoff_after_success_witness:
  "successfully_captured viable_engine
   \<and> list_all read_failed
        [at_time 1, at_time 2, at_time 3, at_time 4, at_time 5, at_time 6 :: nat tick]
   \<and> primary_loop viable_engine 0 0
        [at_time 1, at_time 2, at_time 3, at_time 4, at_time 5, at_time 6]
      = ([Read Primary, Log_fail Primary 1, Release (VideoCapture ''p''), Open ''p'',
          Read Primary, Log_fail Primary 2, Release (VideoCapture ''p''), Open ''p'',
          Read Primary, Log_fail Primary 3, Release (VideoCapture ''p''), Open ''p'',
          Read Primary, Log_fail Primary 4, Release (VideoCapture ''p''), Open ''p'',
          Read Primary, Log_fail Primary 5, Release (VideoCapture ''p''), Open ''p'',
          Read Primary, Log_fail Primary 6, Release (VideoCapture ''p''), Open ''p''],
         Running, viable_engine)
   \<and> \<not> read_failed (good_read 20)
   \<and> trace (primary_loop opened_engine 0 0
        [good_read 20, at_time 21, at_time 22, at_time 23, at_time 24, at_time 25])
      = [Read Primary, Emit Primary 1 20 20,
         Read Primary, Log_fail Primary 1, Release (VideoCapture ''p''), Open ''p'',
         Read Primary, Log_fail Primary 2, Release (VideoCapture ''p''), Open ''p'',
         Read Primary, Log_fail Primary 3, Release (VideoCapture ''p''), Open ''p'',
         Read Primary, Log_fail Primary 4, Release (VideoCapture ''p''), Open ''p'',
         Read Primary, Log_fail Primary 5, Release (VideoCapture ''p''), Open ''p'']"
proof -
  have h1: "successfully_captured viable_engine" by simp
  have h2: "list_all read_failed
        [at_time 1, at_time 2, at_time 3, at_time 4, at_time 5, at_time 6 :: nat tick]"
    by (simp add: read_failed_def)
  have ev1: "primary_loop viable_engine 0 0
        [at_time 1, at_time 2, at_time 3, at_time 4, at_time 5, at_time 6]
      = ([Read Primary, Log_fail Primary 1, Release (VideoCapture ''p''), Open ''p'',
          Read Primary, Log_fail Primary 2, Release (VideoCapture ''p''), Open ''p'',
          Read Primary, Log_fail Primary 3, Release (VideoCapture ''p''), Open ''p'',
          Read Primary, Log_fail Primary 4, Release (VideoCapture ''p''), Open ''p'',
          Read Primary, Log_fail Primary 5, Release (VideoCapture ''p''), Open ''p'',
          Read Primary, Log_fail Primary 6, Release (VideoCapture ''p''), Open ''p''],
         Running, viable_engine)"
    by (simp add: run_defs)
  have h3: "\<not> read_failed (good_read 20)" by (simp add: read_failed_def)
  have ev2: "trace (primary_loop opened_engine 0 0
        [good_read 20, at_time 21, at_time 22, at_time 23, at_time 24, at_time 25])
      = [Read Primary, Emit Primary 1 20 20,
         Read Primary, Log_fail Primary 1, Release (VideoCapture ''p''), Open ''p'',
         Read Primary, Log_fail Primary 2, Release (VideoCapture ''p''), Open ''p'',
         Read Primary, Log_fail Primary 3, Release (VideoCapture ''p''), Open ''p'',
         Read Primary, Log_fail Primary 4, Release (VideoCapture ''p''), Open ''p'',
         Read Primary, Log_fail Primary 5, Release (VideoCapture ''p''), Open ''p'']"
    by (simp add: run_defs)
  from no_handoff_after_success [of viable_engine
      "[at_time 1, at_time 2, at_time 3, at_time 4, at_time 5, at_time 6]" 0 0] h1 h2
  have c: "outcome_of (primary_loop viable_engine 0 0
        [at_time 1, at_time 2, at_time 3, at_time 4, at_time 5, at_time 6 :: nat tick]) = Running"
    by blast
  from c h1 h2 ev1 h3 ev2 show ?thesis by blast
qed

subsection \<open>The fallback loop\<close>

text \<open>
  Claim C10. In the fallback loop, once a read has succeeded (the flag is set, or the
  first tick is a successful read on an open capture), nothing that follows releases the
  capture, waits, measures the speed, resolves the qualities or opens a stream, and the
  capture stays the same object. Under failures only, the loop does nothing but read and
  report a fail count that grows by one each time; it yields nothing and keeps running.
\<close>

theorem fallback_no_recovery_after_success:
  "((successfully_captured e \<or>
       (cap e \<noteq> None \<and> (\<exists>i rest. ticks = i # rest \<and> \<not> read_failed i))) \<longrightarrow>
       filter recovery_action (trace (fallback_loop e fc lpt ticks)) = []
       \<and> cap (final (fallback_loop e fc lpt ticks)) = cap e)
   \<and> (successfully_captured e \<and> list_all (\<lambda>i. cap e = None \<or> read_failed i) ticks \<longrightarrow>
       fallback_loop e fc lpt ticks =
         (concat (map (\<lambda>n. (if cap e \<noteq> None then [Read Fallback] else []) @
                             [Log_fail Fallback n])
                      [fc + 1 ..< fc + 1 + length ticks]),
          Running, e))"
proof (rule conjI; rule impI)
  assume "successfully_captured e \<or>
       (cap e \<noteq> None \<and> (\<exists>i rest. ticks = i # rest \<and> \<not> read_failed i))"
  then show "filter recovery_action (trace (fallback_loop e fc lpt ticks)) = []
       \<and> cap (final (fallback_loop e fc lpt ticks)) = cap e"
  proof
    assume "successfully_captured e"
    from fallback_loop_after_success [OF this, of fc lpt ticks] show ?thesis .
  next
    assume "cap e \<noteq> None \<and> (\<exists>i rest. ticks = i # rest \<and> \<not> read_failed i)"
    then obtain i rest where c: "cap e \<noteq> None" and t: "ticks = i # rest"
      and ok: "\<not> read_failed i" by blast
    from fallback_loop_after_first_success [OF c ok, of fc lpt rest] t show ?thesis by simp
  qed
next
  assume "successfully_captured e \<and> list_all (\<lambda>i. cap e = None \<or> read_failed i) ticks"
  then have a: "successfully_captured e"
    and b: "list_all (\<lambda>i. cap e = None \<or> read_failed i) ticks" by simp_all
  from fallback_loop_persistent_failure [OF a b, of fc lpt]
  show "fallback_loop e fc lpt ticks =
         (concat (map (\<lambda>n. (if cap e \<noteq> None then [Read Fallback] else []) @
                             [Log_fail Fallback n])
                      [fc + 1 ..< fc + 1 + length ticks]),
          Running, e)" .
qed

theorem fallback_no_recovery_after_success_witness:
  "successfully_captured fallback_engine
   \<and> list_all (\<lambda>i. cap fallback_engine = None \<or> read_failed i)
        [at_time 1, at_time 2, at_time 3, at_time 4, at_time 5, at_time 6 :: nat tick]
   \<and> fallback_loop fallback_engine 0 0
        [at_time 1, at_time 2, at_time 3, at_time 4, at_time 5, at_time 6]
      = ([Read Fallback, Log_fail Fallback 1, Read Fallback, Log_fail Fallback 2,
          Read Fallback, Log_fail Fallback 3, Read Fallback, Log_fail Fallback 4,
          Read Fallback, Log_fail Fallback 5, Read Fallback, Log_fail Fallback 6],
         Running, fallback_engine)
   \<and> trace (fallback_loop (fallback_engine\<lparr>successfully_captured := False\<rparr>) 0 0
        [good_read 20, at_time 21, at_time 22, at_time 23, at_time 24, at_time 25])
      = [Read Fallback, Emit Fallback 1 20 20,
         Read Fallback, Log_fail Fallback 1, Read Fallback, Log_fail Fallback 2,
         Read Fallback, Log_fail Fallback 3, Read Fallback, Log_fail Fallback 4,
         Read Fallback, Log_fail Fallback 5]"
  using fallback_no_recovery_after_success [of fallback_engine
      "[at_time 1, at_time 2, at_time 3, at_time 4, at_time 5, at_time 6]" 0 0]
    fallback_no_recovery_after_success [of "fallback_engine\<lparr>successfully_captured := False\<rparr>"
      "[good_read 20, at_time 21, at_time 22, at_time 23, at_time 24, at_time 25]" 0 0]
  by (simp add: run_defs)

text \<open>
  Claim C8. When the quality selection at the start of \<^verbatim>\<open>capture_generic_frames\<close> gives
  no stream URL, the generator returns at once and has yielded nothing. When the
  selection that follows five failures inside the loop gives no URL, the loop goes on,
  with the capture released and the fail count kept; the next iteration then reads
  nothing, counts a failure and selects again, and opens the stream when a URL comes.
\<close>

theorem resolution_failure_in_fallback:
  "(select_quality_based_on_speed (speed i) (streams i) = Inr u \<and> no_url u \<longrightarrow>
      capture_generic_frames e (i # ticks) = ([Probe, Resolve, Log_no_quality], Returned, e))
   \<and> (select_quality_based_on_speed (speed i) (streams i) = Inr u \<and> no_url u
        \<and> (cap e = None \<or> read_failed i) \<and> 5 \<le> fc + 1 \<and> \<not> successfully_captured e \<longrightarrow>
      fallback_loop e fc lpt (i # ticks) =
        prepend ((if cap e \<noteq> None then [Read Fallback] else []) @
                 [Log_fail Fallback (fc + 1), Log_reinit] @
                 (case cap e of Some c \<Rightarrow> [Release c] | None \<Rightarrow> []) @
                 [Sleep5, Probe, Resolve, Log_no_quality])
          (fallback_loop (e\<lparr>cap := None\<rparr>) (fc + 1) lpt ticks))
   \<and> (select_quality_based_on_speed (speed j) (streams j) = Inr (Some url) \<and> url \<noteq> []
        \<and> 5 \<le> fc + 1 \<and> \<not> successfully_captured e \<longrightarrow>
      fallback_loop (e\<lparr>cap := None\<rparr>) (fc + 1) lpt (j # ticks) =
        prepend ([Log_fail Fallback (fc + 2), Log_reinit, Sleep5, Probe, Resolve, Open url] @
                 (if \<not> opened j then [Sleep5, Retry_open url] else []))
          (fallback_loop (e\<lparr>cap := Some (VideoCapture url)\<rparr>) 0 lpt ticks))"
proof (intro conjI impI)
  assume "select_quality_based_on_speed (speed i) (streams i) = Inr u \<and> no_url u"
  then show "capture_generic_frames e (i # ticks) = ([Probe, Resolve, Log_no_quality], Returned, e)"
    by simp
next
  assume a: "select_quality_based_on_speed (speed i) (streams i) = Inr u \<and> no_url u
        \<and> (cap e = None \<or> read_failed i) \<and> 5 \<le> fc + 1 \<and> \<not> successfully_captured e"
  then have f: "cap e = None \<or> read_failed i" by simp
  show "fallback_loop e fc lpt (i # ticks) =
        prepend ((if cap e \<noteq> None then [Read Fallback] else []) @
                 [Log_fail Fallback (fc + 1), Log_reinit] @
                 (case cap e of Some c \<Rightarrow> [Release c] | None \<Rightarrow> []) @
                 [Sleep5, Probe, Resolve, Log_no_quality])
          (fallback_loop (e\<lparr>cap := None\<rparr>) (fc + 1) lpt ticks)"
    using fallback_step_failure [OF f, of fc lpt] a
    by (simp add: Let_def)
next
  assume a: "select_quality_based_on_speed (speed j) (streams j) = Inr (Some url) \<and> url \<noteq> []
        \<and> 5 \<le> fc + 1 \<and> \<not> successfully_captured e"
  have f: "cap (e\<lparr>cap := None\<rparr>) = None \<or> read_failed j" by simp
  show "fallback_loop (e\<lparr>cap := None\<rparr>) (fc + 1) lpt (j # ticks) =
        prepend ([Log_fail Fallback (fc + 2), Log_reinit, Sleep5, Probe, Resolve, Open url] @
                 (if \<not> opened j then [Sleep5, Retry_open url] else []))
          (fallback_loop (e\<lparr>cap := Some (VideoCapture url)\<rparr>) 0 lpt ticks)"
    using fallback_step_failure [OF f, of "fc + 1" lpt] a
    by (simp add: Let_def no_url_def)
qed

theorem resolution_failure_in_fallback_witness:
  "select_quality_based_on_speed (speed (no_quality_at 1)) (streams (no_quality_at 1)) = Inr None
   \<and> no_url None
   \<and> capture_generic_frames opened_engine [no_quality_at 1, good_read 20]
      = ([Probe, Resolve, Log_no_quality], Returned, opened_engine)
   \<and> read_failed (no_quality_at 1)
   \<and> \<not> successfully_captured (opened_engine\<lparr>cap := Some (VideoCapture ''u480'')\<rparr>)
   \<and> fallback_loop (opened_engine\<lparr>cap := Some (VideoCapture ''u480'')\<rparr>) 4 0
        [no_quality_at 1, no_quality_at 2, at_time 3, good_read 20]
      = ([Read Fallback, Log_fail Fallback 5, Log_reinit, Release (VideoCapture ''u480''),
          Sleep5, Probe, Resolve, Log_no_quality,
          Log_fail Fallback 6, Log_reinit, Sleep5, Probe, Resolve, Log_no_quality,
          Log_fail Fallback 7, Log_reinit, Sleep5, Probe, Resolve, Open ''u480'',
          Read Fallback, Emit Fallback 1 20 20],
         Running,
         opened_engine\<lparr>cap := Some (VideoCapture ''u480''), successfully_captured := True\<rparr>)"
  using resolution_failure_in_fallback [where i = "no_quality_at 1" and u = None
      and e = "opened_engine\<lparr>cap := Some (VideoCapture ''u480'')\<rparr>"
      and ticks = "[no_quality_at 2, at_time 3, good_read 20]" and fc = 4 and lpt = 0
      and j = "at_time 3" and url = "''u480''"]
  by (simp add: run_defs)

subsection \<open>Where the code departs from its specification\<close>

text \<open>
  Claim C5 asks that the capture be released when the consumer cancels. The run below has
  the consumer cancel at the first yield: the generator ends there, \<^verbatim>\<open>release\<close> is never
  called and \<^verbatim>\<open>cap\<close> still holds the open capture. (No frame follows the cancellation.)
\<close>

theorem cancel_leaves_capture_open:
  "execute_capture (StreamCapture ''p'' 15) [at_time 100, (good_read 101)\<lparr>cancel := True\<rparr>, good_read 120]
     = ([Open ''p'', Read Primary, Emit Primary 1 101 101], Cancelled,
        \<lparr>stream_url = ''p'', cap = Some (VideoCapture ''p''), capture_interval = 15,
         successfully_captured = True\<rparr>)"
  by (simp add: run_defs)

text \<open>
  Claim C6 asks that a capture be released before the next one is opened, at the handoff
  too. In the run below five reads fail: the fifth iteration releases the capture and
  opens the primary stream again, then \<^verbatim>\<open>capture_generic_frames\<close> opens the fallback
  stream over it with no \<^verbatim>\<open>release\<close> in between. Seven captures were constructed and
  five released.
\<close>

theorem handoff_opens_second_capture:
  "trace (execute_capture (StreamCapture ''p'' 15)
      [at_time 0, at_time 1, at_time 2, at_time 3, at_time 4, at_time 5, at_time 6])
     = [Open ''p'',
        Read Primary, Log_fail Primary 1, Release (VideoCapture ''p''), Open ''p'',
        Read Primary, Log_fail Primary 2, Release (VideoCapture ''p''), Open ''p'',
        Read Primary, Log_fail Primary 3, Release (VideoCapture ''p''), Open ''p'',
        Read Primary, Log_fail Primary 4, Release (VideoCapture ''p''), Open ''p'',
        Read Primary, Log_fail Primary 5, Release (VideoCapture ''p''), Open ''p'',
        Log_switch, Probe, Resolve, Open ''u480'']
   \<and> length (filter is_open (trace (execute_capture (StreamCapture ''p'' 15)
      [at_time 0, at_time 1, at_time 2, at_time 3, at_time 4, at_time 5, at_time 6]))) = 7
   \<and> length (filter is_release (trace (execute_capture (StreamCapture ''p'' 15)
      [at_time 0, at_time 1, at_time 2, at_time 3, at_time 4, at_time 5, at_time 6]))) = 5"
  by (simp add: run_defs)

text \<open>
  Claim C7 asks that both loops start with \<^verbatim>\<open>last_process_time\<close> one interval in the
  past. With the same ticks (start-up at time 100, a successful read at time 101, an
  interval of 15), \<^verbatim>\<open>execute_capture\<close> yields the frame, and
  \<^verbatim>\<open>capture_generic_frames\<close>, which starts from \<^verbatim>\<open>now()\<close>, does not.
\<close>

theorem fallback_first_read_not_emitted:
  "trace (capture_generic_frames (StreamCapture ''p'' 15) [at_time 100, good_read 101])
     = [Probe, Resolve, Open ''u480'', Read Fallback]
   \<and> trace (execute_capture (StreamCapture ''p'' 15) [at_time 100, good_read 101])
     = [Open ''p'', Read Primary, Emit Primary 1 101 101]"
  by (simp add: run_defs)

end
